theory Spec2Isabelle
  imports Main "HOL-Library.Multiset"
begin

section \<open>Data model\<close>

text \<open>
  The program reads a delimited text file, shuffles either its columns or its rows and
  writes the result. The embedding follows \<^verbatim>\<open>src/main.py\<close> function by function.
  A parsed record is a list of text fields; exceptions are values of \<open>exn\<close>; the log is
  the list of the calls made to \<^verbatim>\<open>logging\<close>, in order.
\<close>

type_synonym row = "string list"

datatype exn =
    FileNotFoundError
  | PermissionError
  | LookupError
  | UnicodeDecodeError
  | CsvError
  | OSError
  | StopIteration
  | IndexError

datatype level = INFO | WARNING | ERROR

datatype message =
    Detected_encoding string
  | Failed_to_detect_encoding
  | Error_detecting_encoding exn
  | Input_file_not_found
  | Error_opening_input_file exn
  | Invalid_column_index string
  | Column_name_not_found string
  | Skipping_row nat nat
  | Columns_permuted_successfully
  | Error_permuting_columns exn
  | Rows_permuted_successfully
  | Error_permuting_rows exn

type_synonym log_entry = "level \<times> message"

text \<open>
  What \<^verbatim>\<open>csv.reader\<close> yields next: a parsed record, or an exception raised while reading
  (a decoding error, a malformed quoted field, a failing device).
\<close>

datatype item = Rec row | Raise exn

text \<open>
  The world outside the program, as one run sees it. The input path and the output path
  name different files. \<open>detect_result\<close> is the outcome of the charset detection over the
  raw bytes; \<open>open_input enc\<close> is the outcome of opening the input path for reading under
  encoding \<open>enc\<close>, and on success the sequence the CSV reader yields for the delimiter and
  quote character of the run; \<open>open_output\<close> is the exception raised by opening the output
  path for writing, if any; \<open>write_limit = Some k\<close> means that the first \<open>k\<close> records
  written reach the file and the next write raises; \<open>rnd t\<close> is the raw value behind the
  \<open>t\<close>-th draw of the random generator.
\<close>

record env =
  detect_result :: "exn + string option"
  open_input :: "string option \<Rightarrow> exn + item list"
  open_output :: "exn option"
  write_limit :: "nat option"
  rnd :: "nat \<Rightarrow> nat"

text \<open>
  The effects of a run: \<open>out_file = None\<close> while the output path has not been touched,
  \<open>Some rs\<close> once it has been opened for writing (created or truncated) and the records
  \<open>rs\<close> have been written to it.
\<close>

record state =
  out_file :: "row list option"
  log :: "log_entry list"

record args =
  input_file :: string
  output_file :: string
  delimiter :: string
  quotechar :: string
  exclude_columns :: string
  permute_rows_flag :: bool
  encoding :: "string option"

section \<open>Library functions the program calls\<close>

subsection \<open>\<^verbatim>\<open>random.shuffle\<close>\<close>

text \<open>
  The standard library shuffles in place, from the last index down to 1:
  \<^verbatim>\<open>for i in reversed(range(1, len(x))): j = randbelow(i + 1); x[i], x[j] = x[j], x[i]\<close>.
  The \<open>t\<close>-th call \<^verbatim>\<open>randbelow(b)\<close> is \<open>r t mod b\<close>, which ranges over all of
  \<open>[0, b)\<close> as the raw draws vary.
\<close>

definition swap :: "nat \<Rightarrow> nat \<Rightarrow> 'a list \<Rightarrow> 'a list" where
  "swap i j xs = xs[i := xs ! j, j := xs ! i]"

fun shuffle_from :: "(nat \<Rightarrow> nat) \<Rightarrow> nat \<Rightarrow> nat \<Rightarrow> 'a list \<Rightarrow> 'a list" where
  "shuffle_from r t 0 xs = xs"
| "shuffle_from r t (Suc i) xs =
     shuffle_from r (Suc t) i (swap (Suc i) (r t mod (Suc (Suc i))) xs)"

definition shuffle :: "(nat \<Rightarrow> nat) \<Rightarrow> 'a list \<Rightarrow> 'a list" where
  "shuffle r xs = shuffle_from r 0 (length xs - 1) xs"

subsection \<open>List indexing and \<^verbatim>\<open>list.index\<close>\<close>

definition getitem :: "'a list \<Rightarrow> nat \<Rightarrow> exn + 'a" where
  "getitem xs i = (if i < length xs then Inr (xs ! i) else Inl IndexError)"

text \<open>The comprehension \<^verbatim>\<open>[xs[i] for i in idx]\<close>: the first bad index raises.\<close>

fun select :: "'a list \<Rightarrow> nat list \<Rightarrow> exn + 'a list" where
  "select xs [] = Inr []"
| "select xs (i # idx) =
     (case getitem xs i of
        Inl e \<Rightarrow> Inl e
      | Inr v \<Rightarrow> (case select xs idx of Inl e \<Rightarrow> Inl e | Inr vs \<Rightarrow> Inr (v # vs)))"

text \<open>\<^verbatim>\<open>header.index(col)\<close>: the first position holding \<open>col\<close>; \<open>None\<close> is ValueError.\<close>

fun list_index :: "'a list \<Rightarrow> 'a \<Rightarrow> nat option" where
  "list_index [] x = None"
| "list_index (y # ys) x = (if y = x then Some 0 else map_option Suc (list_index ys x))"

subsection \<open>\<^verbatim>\<open>int(str)\<close> and \<^verbatim>\<open>str.strip\<close>\<close>

text \<open>
  Base-10 \<^verbatim>\<open>int\<close> on ASCII text: surrounding whitespace is ignored, one sign is allowed,
  then decimal digits, with single underscores allowed between digits. \<open>None\<close> is
  ValueError. Non-ASCII digits and the interpreter's limit on the number of digits are
  outside the model.
\<close>

definition is_space :: "char \<Rightarrow> bool" where
  "is_space c = ((of_char c :: nat) \<in> {9, 10, 11, 12, 13, 28, 29, 30, 31, 32})"

definition is_digit :: "char \<Rightarrow> bool" where
  "is_digit c = (48 \<le> (of_char c :: nat) \<and> (of_char c :: nat) \<le> 57)"

definition digit_val :: "char \<Rightarrow> nat" where
  "digit_val c = of_char c - 48"

definition strip :: "string \<Rightarrow> string" where
  "strip s = rev (dropWhile is_space (rev (dropWhile is_space s)))"

fun parse_digits :: "nat \<Rightarrow> string \<Rightarrow> nat option" where
  "parse_digits acc [] = Some acc"
| "parse_digits acc [c] = (if is_digit c then Some (10 * acc + digit_val c) else None)"
| "parse_digits acc (c # d # cs) =
     (if c = CHR ''_''
      then (if is_digit d then parse_digits (10 * acc + digit_val d) cs else None)
      else if is_digit c then parse_digits (10 * acc + digit_val c) (d # cs)
      else None)"

fun parse_unsigned :: "string \<Rightarrow> nat option" where
  "parse_unsigned [] = None"
| "parse_unsigned (c # cs) = (if is_digit c then parse_digits (digit_val c) cs else None)"

definition py_int :: "string \<Rightarrow> int option" where
  "py_int s =
     (case strip s of
        [] \<Rightarrow> None
      | c # cs \<Rightarrow>
          if c = CHR ''-'' then map_option (\<lambda>n. - int n) (parse_unsigned cs)
          else if c = CHR ''+'' then map_option int (parse_unsigned cs)
          else map_option int (parse_unsigned (c # cs)))"

text \<open>\<^verbatim>\<open>str.split(',')\<close>: the pieces between the separators; the empty text gives one empty piece.\<close>

fun split_on :: "char \<Rightarrow> string \<Rightarrow> string list" where
  "split_on d [] = [[]]"
| "split_on d (c # cs) =
     (if c = d then [] # split_on d cs
      else (case split_on d cs of [] \<Rightarrow> [[c]] | p # ps \<Rightarrow> (c # p) # ps))"

section \<open>Column permutation\<close>

subsection \<open>Resolving the exclusion tokens (lines 97 to 114)\<close>

definition resolve_token ::
  "row \<Rightarrow> nat \<Rightarrow> string \<Rightarrow> nat set \<times> log_entry list \<Rightarrow> nat set \<times> log_entry list" where
  "resolve_token header num_columns col st =
     (case st of (exclude_indices, lg) \<Rightarrow>
        (case py_int col of
           Some index \<Rightarrow>
             if 0 \<le> index \<and> index < int num_columns
             then (insert (nat index) exclude_indices, lg)
             else (exclude_indices, lg @ [(WARNING, Invalid_column_index col)])
         | None \<Rightarrow>
             (case list_index header col of
                Some index \<Rightarrow> (insert index exclude_indices, lg)
              | None \<Rightarrow> (exclude_indices, lg @ [(WARNING, Column_name_not_found col)]))))"

definition resolve :: "row \<Rightarrow> string list \<Rightarrow> nat set \<times> log_entry list" where
  "resolve header cols = fold (resolve_token header (length header)) cols ({}, [])"

text \<open>\<^verbatim>\<open>if exclude_columns:\<close> holds for a list that is present and not empty.\<close>

definition truthy :: "string list option \<Rightarrow> bool" where
  "truthy exclude = (case exclude of None \<Rightarrow> False | Some cols \<Rightarrow> cols \<noteq> [])"

subsection \<open>Placing values (lines 125 to 131 and 153 to 161)\<close>

text \<open>
  The walk over \<^verbatim>\<open>range(num_columns)\<close> that fills the list created as
  \<^verbatim>\<open>[None] * num_columns\<close>: an excluded position takes the original value at that
  position, any other position takes the next value of \<open>vals\<close>; \<open>k\<close> is
  \<^verbatim>\<open>permute_index\<close>.
\<close>

fun place ::
  "nat set \<Rightarrow> row \<Rightarrow> row \<Rightarrow> nat list \<Rightarrow> string option list \<Rightarrow> nat \<Rightarrow> exn + string option list" where
  "place exclude_indices orig vals [] acc k = Inr acc"
| "place exclude_indices orig vals (i # is) acc k =
     (if i \<in> exclude_indices
      then (case getitem orig i of
              Inl e \<Rightarrow> Inl e
            | Inr v \<Rightarrow> place exclude_indices orig vals is (acc[i := Some v]) k)
      else (case getitem vals k of
              Inl e \<Rightarrow> Inl e
            | Inr v \<Rightarrow> place exclude_indices orig vals is (acc[i := Some v]) (Suc k)))"

subsection \<open>The header (lines 92 to 140)\<close>

text \<open>
  What the header step leaves for the rows: with a non-empty exclusion list, the set
  \<^verbatim>\<open>exclude_indices\<close> and the list \<^verbatim>\<open>permute_indices\<close> of the other positions in
  ascending order; otherwise the shuffled list \<^verbatim>\<open>permute_indices\<close> alone.
\<close>

datatype plan = With_exclusions "nat set" "nat list" | Simple "nat list"

definition build_header ::
  "(nat \<Rightarrow> nat) \<Rightarrow> row \<Rightarrow> string list option \<Rightarrow> (exn + plan \<times> string option list) \<times> log_entry list" where
  "build_header r header exclude =
     (let num_columns = length header in
      if truthy exclude then
        (case resolve header (the exclude) of (exclude_indices, lg) \<Rightarrow>
           (let permute_indices = filter (\<lambda>i. i \<notin> exclude_indices) [0..<num_columns] in
            case select header permute_indices of
              Inl e \<Rightarrow> (Inl e, lg)
            | Inr cols \<Rightarrow>
                (let permuted_columns = shuffle r cols in
                 case place exclude_indices header permuted_columns [0..<num_columns]
                        (replicate num_columns None) 0 of
                   Inl e \<Rightarrow> (Inl e, lg)
                 | Inr permuted_header \<Rightarrow>
                     (Inr (With_exclusions exclude_indices permute_indices, permuted_header), lg))))
      else
        (let permute_indices = shuffle r [0..<num_columns] in
         case select header permute_indices of
           Inl e \<Rightarrow> (Inl e, [])
         | Inr permuted_header \<Rightarrow> (Inr (Simple permute_indices, map Some permuted_header), [])))"

subsection \<open>One data row (lines 148 to 165)\<close>

definition permute_row :: "plan \<Rightarrow> nat \<Rightarrow> row \<Rightarrow> exn + string option list" where
  "permute_row p num_columns row =
     (case p of
        With_exclusions exclude_indices permute_indices \<Rightarrow>
          (case select row permute_indices of
             Inl e \<Rightarrow> Inl e
           | Inr row_values \<Rightarrow>
               place exclude_indices row row_values [0..<num_columns]
                 (replicate num_columns None) 0)
      | Simple permute_indices \<Rightarrow>
          (case select row permute_indices of
             Inl e \<Rightarrow> Inl e
           | Inr permuted_row \<Rightarrow> Inr (map Some permuted_row)))"

subsection \<open>Writing records\<close>

text \<open>The CSV writer renders a \<^verbatim>\<open>None\<close> field as the empty text.\<close>

definition csv_field :: "string option \<Rightarrow> string" where
  "csv_field f = (case f of None \<Rightarrow> [] | Some s \<Rightarrow> s)"

definition writerow :: "nat option \<Rightarrow> string option list \<Rightarrow> row list \<Rightarrow> exn + row list" where
  "writerow limit cells written =
     (case limit of
        None \<Rightarrow> Inr (written @ [map csv_field cells])
      | Some k \<Rightarrow>
          if length written < k then Inr (written @ [map csv_field cells])
          else Inl OSError)"

fun writerows :: "nat option \<Rightarrow> row list \<Rightarrow> row list \<Rightarrow> exn option \<times> row list" where
  "writerows limit [] written = (None, written)"
| "writerows limit (r # rs) written =
     (case writerow limit (map Some r) written of
        Inl e \<Rightarrow> (Some e, written)
      | Inr written' \<Rightarrow> writerows limit rs written')"

subsection \<open>The loop over the data rows (lines 143 to 167)\<close>

fun rows_loop ::
  "nat option \<Rightarrow> plan \<Rightarrow> nat \<Rightarrow> item list \<Rightarrow> row list \<Rightarrow> log_entry list
     \<Rightarrow> exn option \<times> row list \<times> log_entry list" where
  "rows_loop limit p num_columns [] written lg = (None, written, lg)"
| "rows_loop limit p num_columns (Raise e # rest) written lg = (Some e, written, lg)"
| "rows_loop limit p num_columns (Rec row # rest) written lg =
     (if length row \<noteq> num_columns
      then rows_loop limit p num_columns rest written
             (lg @ [(WARNING, Skipping_row (length row) num_columns)])
      else (case permute_row p num_columns row of
              Inl e \<Rightarrow> (Some e, written, lg)
            | Inr permuted_row \<Rightarrow>
                (case writerow limit permuted_row written of
                   Inl e \<Rightarrow> (Some e, written, lg)
                 | Inr written' \<Rightarrow> rows_loop limit p num_columns rest written' lg)))"

subsection \<open>\<^verbatim>\<open>permute_columns\<close>\<close>

text \<open>
  The body of the \<^verbatim>\<open>with\<close> block (lines 89 to 167), once both files are open: the
  exception that ended it, if any, the records written and the log lines emitted.
\<close>

definition columns_body ::
  "(nat \<Rightarrow> nat) \<Rightarrow> nat option \<Rightarrow> string list option \<Rightarrow> item list
     \<Rightarrow> exn option \<times> row list \<times> log_entry list" where
  "columns_body r limit exclude items =
     (case items of
        [] \<Rightarrow> (Some StopIteration, [], [])
      | Raise e # rest \<Rightarrow> (Some e, [], [])
      | Rec header # rest \<Rightarrow>
          (case build_header r header exclude of
             (Inl e, lg) \<Rightarrow> (Some e, [], lg)
           | (Inr (p, permuted_header), lg) \<Rightarrow>
               (case writerow limit permuted_header [] of
                  Inl e \<Rightarrow> (Some e, [], lg)
                | Inr written \<Rightarrow> rows_loop limit p (length header) rest written lg)))"

text \<open>
  The \<^verbatim>\<open>with\<close> statement of line 88 and its block: the input is opened first, then
  the output; the paths, the delimiter and the quote character are those the environment
  describes. The result is the exception that left the block, if any, the records that
  reached the output file (\<open>None\<close> when the output was never opened) and the log lines
  of the block.
\<close>

definition columns_try ::
  "env \<Rightarrow> string list option \<Rightarrow> string option
     \<Rightarrow> exn option \<times> row list option \<times> log_entry list" where
  "columns_try w exclude enc =
     (case open_input w enc of
        Inl e \<Rightarrow> (Some e, None, [])
      | Inr items \<Rightarrow>
          (case open_output w of
             Some e \<Rightarrow> (Some e, None, [])
           | None \<Rightarrow>
               (case columns_body (rnd w) (write_limit w) exclude items of
                  (raised, written, lg) \<Rightarrow> (raised, Some written, lg))))"

text \<open>
  The whole function (lines 87 to 173): the handler of line 172 catches every exception
  and logs it; without an exception line 170 logs the success.
\<close>

definition permute_columns :: "env \<Rightarrow> string list option \<Rightarrow> string option \<Rightarrow> state \<Rightarrow> state" where
  "permute_columns w exclude enc s =
     (case columns_try w exclude enc of
        (raised, out, lg) \<Rightarrow>
          \<lparr>out_file = (case out of None \<Rightarrow> out_file s | Some written \<Rightarrow> Some written),
           log = log s @ lg @
             [case raised of
                Some e \<Rightarrow> (ERROR, Error_permuting_columns e)
              | None \<Rightarrow> (INFO, Columns_permuted_successfully)]\<rparr>)"

section \<open>Row permutation\<close>

text \<open>\<^verbatim>\<open>list(reader)\<close>: every remaining record, unless reading raises.\<close>

fun read_all :: "item list \<Rightarrow> exn + row list" where
  "read_all [] = Inr []"
| "read_all (Raise e # rest) = Inl e"
| "read_all (Rec row # rest) =
     (case read_all rest of Inl e \<Rightarrow> Inl e | Inr rows \<Rightarrow> Inr (row # rows))"

definition rows_body ::
  "(nat \<Rightarrow> nat) \<Rightarrow> nat option \<Rightarrow> item list \<Rightarrow> exn option \<times> row list" where
  "rows_body r limit items =
     (case items of
        [] \<Rightarrow> (Some StopIteration, [])
      | Raise e # rest \<Rightarrow> (Some e, [])
      | Rec header # rest \<Rightarrow>
          (case writerow limit (map Some header) [] of
             Inl e \<Rightarrow> (Some e, [])
           | Inr written \<Rightarrow>
               (case read_all rest of
                  Inl e \<Rightarrow> (Some e, written)
                | Inr rows \<Rightarrow> writerows limit (shuffle r rows) written)))"

definition rows_try :: "env \<Rightarrow> string option \<Rightarrow> exn option \<times> row list option" where
  "rows_try w enc =
     (case open_input w enc of
        Inl e \<Rightarrow> (Some e, None)
      | Inr items \<Rightarrow>
          (case open_output w of
             Some e \<Rightarrow> (Some e, None)
           | None \<Rightarrow>
               (case rows_body (rnd w) (write_limit w) items of
                  (raised, written) \<Rightarrow> (raised, Some written))))"

text \<open>Lines 181 to 197; the parameter \<^verbatim>\<open>exclude_columns\<close> is accepted and never read.\<close>

definition permute_rows :: "env \<Rightarrow> string list option \<Rightarrow> string option \<Rightarrow> state \<Rightarrow> state" where
  "permute_rows w exclude enc s =
     (case rows_try w enc of
        (raised, out) \<Rightarrow>
          \<lparr>out_file = (case out of None \<Rightarrow> out_file s | Some written \<Rightarrow> Some written),
           log = log s @
             [case raised of
                Some e \<Rightarrow> (ERROR, Error_permuting_rows e)
              | None \<Rightarrow> (INFO, Rows_permuted_successfully)]\<rparr>)"

section \<open>The command line\<close>

definition detect_encoding :: "env \<Rightarrow> string option \<times> log_entry list" where
  "detect_encoding w =
     (case detect_result w of
        Inl e \<Rightarrow> (None, [(ERROR, Error_detecting_encoding e)])
      | Inr result \<Rightarrow> (result, []))"

text \<open>A text option is false in a condition when it is \<^verbatim>\<open>None\<close> or empty.\<close>

definition nonempty :: "string option \<Rightarrow> bool" where
  "nonempty x = (case x of None \<Rightarrow> False | Some t \<Rightarrow> t \<noteq> [])"

definition validate_input :: "env \<Rightarrow> args \<Rightarrow> bool \<times> log_entry list" where
  "validate_input w a =
     (case open_input w (if nonempty (encoding a) then encoding a else Some ''utf-8'') of
        Inl e \<Rightarrow>
          if e = FileNotFoundError then (False, [(ERROR, Input_file_not_found)])
          else (False, [(ERROR, Error_opening_input_file e)])
      | Inr items \<Rightarrow> (True, []))"

text \<open>Line 219: the exclusion argument split at commas, trimmed, empty tokens dropped.\<close>

definition parse_exclude :: "string \<Rightarrow> string list option" where
  "parse_exclude t =
     (if t = [] then None
      else Some (map strip (filter (\<lambda>col. strip col \<noteq> []) (split_on CHR '','' t))))"

text \<open>Lines 207 to 213: the encoding the run uses, with the log lines of the detection.\<close>

definition resolve_encoding :: "env \<Rightarrow> args \<Rightarrow> string option \<times> log_entry list" where
  "resolve_encoding w a =
     (if \<not> nonempty (encoding a) then
        (case detect_encoding w of
           (d, lg) \<Rightarrow>
             if nonempty d then (d, lg @ [(INFO, Detected_encoding (the d))])
             else (Some ''utf-8'', lg @ [(WARNING, Failed_to_detect_encoding)]))
      else (encoding a, []))"

text \<open>
  \<^verbatim>\<open>main\<close> (lines 204 to 225) returns the exit status of the process with the effects of
  the run: 1 from \<^verbatim>\<open>sys.exit(1)\<close>, 0 when the function returns.
\<close>

definition main :: "env \<Rightarrow> args \<Rightarrow> nat \<times> state" where
  "main w a0 =
     (case resolve_encoding w a0 of
        (enc, lg1) \<Rightarrow>
          (let a = a0\<lparr>encoding := enc\<rparr> in
           case validate_input w a of
             (ok, lg2) \<Rightarrow>
               if \<not> ok then (1, \<lparr>out_file = None, log = lg1 @ lg2\<rparr>)
               else
                 (let exclude = parse_exclude (exclude_columns a);
                      s = \<lparr>out_file = None, log = lg1 @ lg2\<rparr>
                  in if permute_rows_flag a
                     then (0, permute_rows w exclude (encoding a) s)
                     else (0, permute_columns w exclude (encoding a) s))))"

section \<open>Notions used in the statements\<close>

text \<open>
  The positions that take part in the shuffle, in ascending order, and the number of
  such positions below \<open>i\<close>.
\<close>

definition free_positions :: "nat set \<Rightarrow> nat \<Rightarrow> nat list" where
  "free_positions E n = filter (\<lambda>i. i \<notin> E) [0..<n]"

definition rank :: "nat set \<Rightarrow> nat \<Rightarrow> nat" where
  "rank E i = length (filter (\<lambda>j. j \<notin> E) [0..<i])"

text \<open>The data records the reader yields before it raises or ends.\<close>

fun records :: "item list \<Rightarrow> row list" where
  "records [] = []"
| "records (Raise e # rest) = []"
| "records (Rec row # rest) = row # records rest"

text \<open>The data rows with as many fields as the header, in input order.\<close>

definition retained :: "nat \<Rightarrow> row list \<Rightarrow> row list" where
  "retained n rows = filter (\<lambda>row. length row = n) rows"

definition dropped :: "nat \<Rightarrow> row list \<Rightarrow> row list" where
  "dropped n rows = filter (\<lambda>row. length row \<noteq> n) rows"

text \<open>
  The resolved set of excluded positions of a run: the set built by lines 97 to 114 when
  the exclusion list is non-empty; without exclusions no position is excluded.
\<close>

definition excluded :: "row \<Rightarrow> string list option \<Rightarrow> nat set" where
  "excluded header exclude =
     (if truthy exclude then fst (resolve header (the exclude)) else {})"

text \<open>
  The position an exclusion token stands for, following the wording of the
  specification: an integer inside \<open>[0, num_columns)\<close>, else, when the token is not an
  integer, the first position of the header holding exactly that name.
\<close>

definition first_position :: "row \<Rightarrow> string \<Rightarrow> nat" where
  "first_position header col = length (takeWhile (\<lambda>h. h \<noteq> col) header)"

definition spec_position :: "row \<Rightarrow> string \<Rightarrow> nat option" where
  "spec_position header col =
     (case py_int col of
        Some index \<Rightarrow>
          if 0 \<le> index \<and> index < int (length header) then Some (nat index) else None
      | None \<Rightarrow> if col \<in> set header then Some (first_position header col) else None)"

definition spec_warning :: "string \<Rightarrow> log_entry" where
  "spec_warning col =
     (case py_int col of
        Some index \<Rightarrow> (WARNING, Invalid_column_index col)
      | None \<Rightarrow> (WARNING, Column_name_not_found col))"

definition is_warning :: "log_entry \<Rightarrow> bool" where
  "is_warning entry = (fst entry = WARNING)"

text \<open>
  Closed forms of what the column mode writes, used to state and prove the properties
  below: the header record, and the record written for a data row of the right width.
\<close>

definition header_image :: "(nat \<Rightarrow> nat) \<Rightarrow> row \<Rightarrow> string list option \<Rightarrow> row" where
  "header_image r header exclude =
     (if truthy exclude then
        map (\<lambda>i. if i \<in> excluded header exclude then header ! i
                 else shuffle r (map ((!) header) (free_positions (excluded header exclude) (length header)))
                        ! rank (excluded header exclude) i)
          [0..<length header]
      else map ((!) header) (shuffle r [0..<length header]))"

definition row_image :: "(nat \<Rightarrow> nat) \<Rightarrow> nat \<Rightarrow> string list option \<Rightarrow> row \<Rightarrow> row" where
  "row_image r n exclude row =
     (if truthy exclude then row else map ((!) row) (shuffle r [0..<n]))"

definition skip_warning :: "nat \<Rightarrow> row \<Rightarrow> log_entry" where
  "skip_warning n row = (WARNING, Skipping_row (length row) n)"

section \<open>Sample inputs\<close>

definition zero_draws :: "nat \<Rightarrow> nat" where
  "zero_draws t = 0"

definition no_input :: "string option \<Rightarrow> exn + item list" where
  "no_input enc = Inl FileNotFoundError"

definition sample_input :: "string option \<Rightarrow> exn + item list" where
  "sample_input enc =
     Inr [Rec [''a'', ''b'', ''c''], Rec [''1'', ''2'', ''3''], Rec [''x''], Rec [''4'', ''5'', ''6'']]"

definition empty_input :: "string option \<Rightarrow> exn + item list" where
  "empty_input enc = Inr []"

definition missing_input_env :: env where
  "missing_input_env =
     \<lparr>detect_result = Inl FileNotFoundError, open_input = no_input, open_output = None,
      write_limit = None, rnd = zero_draws\<rparr>"

definition sample_env :: env where
  "sample_env =
     \<lparr>detect_result = Inr (Some ''ascii''), open_input = sample_input, open_output = None,
      write_limit = None, rnd = zero_draws\<rparr>"

definition empty_env :: env where
  "empty_env =
     \<lparr>detect_result = Inr None, open_input = empty_input, open_output = None,
      write_limit = None, rnd = zero_draws\<rparr>"

definition default_args :: args where
  "default_args =
     \<lparr>input_file = ''in.csv'', output_file = ''out.csv'', delimiter = '','',
      quotechar = [CHR 0x22], exclude_columns = [], permute_rows_flag = False,
      encoding = None\<rparr>"

definition fresh :: state where
  "fresh = \<lparr>out_file = None, log = []\<rparr>"

text \<open>The warnings about skipped rows among some log lines.\<close>

definition skip_warnings :: "log_entry list \<Rightarrow> log_entry list" where
  "skip_warnings lg =
     filter (\<lambda>entry. case snd entry of Skipping_row a b \<Rightarrow> True | _ \<Rightarrow> False) lg"

text \<open>The sample table on a device that accepts two records and then fails.\<close>

definition full_disk_env :: env where
  "full_disk_env = sample_env\<lparr>write_limit := Some 2\<rparr>"

text \<open>
  What the \<^verbatim>\<open>with\<close> block of the permutation function called by \<^verbatim>\<open>main\<close> does: the
  exception that leaves it, if any, and the records that had reached the output file by
  then (\<open>None\<close> when the output was never opened).
\<close>

definition permutation_outcome :: "env \<Rightarrow> args \<Rightarrow> exn option \<times> row list option" where
  "permutation_outcome w a =
     (if permute_rows_flag a then rows_try w (fst (resolve_encoding w a))
      else (case columns_try w (parse_exclude (exclude_columns a)) (fst (resolve_encoding w a)) of
              (raised, out, lg) \<Rightarrow> (raised, out)))"

section \<open>Properties of the library functions\<close>

lemma length_swap [simp]: "length (swap i j xs) = length xs"
  by (simp add: swap_def)

lemma mset_swap_list: "i < length xs \<Longrightarrow> j < length xs \<Longrightarrow> mset (swap i j xs) = mset xs"
  unfolding swap_def by (simp add: mset_swap)

lemma length_shuffle_from [simp]: "length (shuffle_from r t i xs) = length xs"
  by (induction i arbitrary: t xs) simp_all

lemma mset_shuffle_from: "i < length xs \<Longrightarrow> mset (shuffle_from r t i xs) = mset xs"
proof (induction i arbitrary: t xs)
  case 0
  show ?case by simp
next
  case (Suc i)
  have j: "r t mod Suc (Suc i) < length xs"
    using Suc.prems by (meson less_Suc_eq_le less_le_trans mod_less_divisor zero_less_Suc Suc_leI)
  have "mset (swap (Suc i) (r t mod Suc (Suc i)) xs) = mset xs"
    using Suc.prems j by (rule mset_swap_list)
  moreover have "i < length (swap (Suc i) (r t mod Suc (Suc i)) xs)"
    using Suc.prems by simp
  ultimately show ?case using Suc.IH by simp
qed

lemma length_shuffle [simp]: "length (shuffle r xs) = length xs"
  by (simp add: shuffle_def)

lemma mset_shuffle [simp]: "mset (shuffle r xs) = mset xs"
proof (cases xs)
  case Nil
  then show ?thesis by (simp add: shuffle_def)
next
  case (Cons x ys)
  then show ?thesis by (simp add: shuffle_def mset_shuffle_from)
qed

lemma set_shuffle [simp]: "set (shuffle r xs) = set xs"
  by (metis mset_shuffle set_mset_mset)

lemma select_in_range:
  "\<forall>i \<in> set idx. i < length xs \<Longrightarrow> select xs idx = Inr (map ((!) xs) idx)"
  by (induction idx) (simp_all add: getitem_def)

section \<open>Placing values never fails\<close>

lemma rank_Suc: "rank E (Suc i) = (if i \<in> E then rank E i else Suc (rank E i))"
  by (simp add: rank_def)

lemma rank_mono: "i \<le> j \<Longrightarrow> rank E i \<le> rank E j"
  by (induction j) (auto simp: rank_Suc le_Suc_eq)

lemma rank_less: "i < n \<Longrightarrow> i \<notin> E \<Longrightarrow> rank E i < rank E n"
proof -
  assume a: "i < n" "i \<notin> E"
  then have "rank E (Suc i) \<le> rank E n" by (intro rank_mono) simp
  with a show ?thesis by (simp add: rank_Suc)
qed

lemma length_free_positions: "length (free_positions E n) = rank E n"
  by (simp add: free_positions_def rank_def)

lemma place_upt:
  assumes "length orig = n" "length vals = rank E n" "length acc = n" "a \<le> n"
  shows "place E orig vals [a..<n] acc (rank E a) =
           Inr (take a acc @ map (\<lambda>i. Some (if i \<in> E then orig ! i else vals ! rank E i)) [a..<n])"
  using assms(3,4)
proof (induction "n - a" arbitrary: a acc)
  case 0
  then show ?case by simp
next
  case (Suc d)
  then have an: "a < n" by simp
  let ?v = "if a \<in> E then orig ! a else vals ! rank E a"
  have upt: "[a..<n] = a # [Suc a..<n]" using an by (simp add: upt_conv_Cons)
  have IH: "place E orig vals [Suc a..<n] (acc[a := Some ?v]) (rank E (Suc a)) =
      Inr (take (Suc a) (acc[a := Some ?v]) @
           map (\<lambda>i. Some (if i \<in> E then orig ! i else vals ! rank E i)) [Suc a..<n])"
    using Suc.hyps(1)[of "Suc a" "acc[a := Some ?v]"] Suc.hyps(2) Suc.prems an by simp
  have tk: "take (Suc a) (acc[a := Some ?v]) = take a acc @ [Some ?v]"
    using an Suc.prems by (simp add: take_Suc_conv_app_nth)
  have rk: "a \<notin> E \<Longrightarrow> rank E a < length vals"
    using an assms(2) by (simp add: rank_less)
  show ?case
  proof (cases "a \<in> E")
    case True
    then show ?thesis using IH tk an assms(1) by (simp add: upt getitem_def rank_Suc)
  next
    case False
    then show ?thesis using IH tk rk an by (simp add: upt getitem_def rank_Suc)
  qed
qed

lemma place_all:
  assumes "length orig = n" "length vals = rank E n"
  shows "place E orig vals [0..<n] (replicate n None) 0 =
           Inr (map (\<lambda>i. Some (if i \<in> E then orig ! i else vals ! rank E i)) [0..<n])"
  using place_upt[OF assms, of "replicate n None" 0] by (simp add: rank_def)

lemma map_rank_free:
  "m \<le> n \<Longrightarrow> length vals = rank E n \<Longrightarrow>
   map (\<lambda>i. vals ! rank E i) (free_positions E m) = take (rank E m) vals"
proof (induction m)
  case 0
  then show ?case by (simp add: free_positions_def rank_def)
next
  case (Suc m)
  then have IH: "map (\<lambda>i. vals ! rank E i) (free_positions E m) = take (rank E m) vals" by simp
  show ?case
  proof (cases "m \<in> E")
    case True
    then show ?thesis using IH by (simp add: free_positions_def rank_Suc)
  next
    case False
    then have "rank E m < length vals" using Suc.prems by (simp add: rank_less)
    then show ?thesis using IH False
      by (simp add: free_positions_def rank_Suc take_Suc_conv_app_nth)
  qed
qed

lemma nth_free_rank:
  assumes "i < n" "i \<notin> E"
  shows "free_positions E n ! rank E i = i"
proof -
  have "[0..<n] = [0..<i] @ i # [Suc i..<n]"
    using assms(1) by (metis le_add_diff_inverse less_imp_le_nat upt_add_eq_append upt_conv_Cons zero_le)
  then have "free_positions E n = filter (\<lambda>j. j \<notin> E) [0..<i] @ i # filter (\<lambda>j. j \<notin> E) [Suc i..<n]"
    using assms(2) by (simp add: free_positions_def)
  then show ?thesis by (simp add: rank_def nth_append)
qed

section \<open>The command line: encoding and validation\<close>

lemma nonempty_resolve_encoding: "nonempty (fst (resolve_encoding w a))"
  by (simp add: resolve_encoding_def nonempty_def detect_encoding_def
      split: sum.splits option.splits prod.splits)

lemma validate_input_resolved:
  "validate_input w (a\<lparr>encoding := fst (resolve_encoding w a)\<rparr>) =
     (case open_input w (fst (resolve_encoding w a)) of
        Inl e \<Rightarrow> (False, [(ERROR, if e = FileNotFoundError then Input_file_not_found
                                  else Error_opening_input_file e)])
      | Inr items \<Rightarrow> (True, []))"
  by (simp add: validate_input_def nonempty_resolve_encoding split: sum.splits)

lemma main_unfold:
  "main w a =
     (case validate_input w (a\<lparr>encoding := fst (resolve_encoding w a)\<rparr>) of
        (ok, lg2) \<Rightarrow>
          if \<not> ok then (1, \<lparr>out_file = None, log = snd (resolve_encoding w a) @ lg2\<rparr>)
          else if permute_rows_flag a
          then (0, permute_rows w (parse_exclude (exclude_columns a)) (fst (resolve_encoding w a))
                     \<lparr>out_file = None, log = snd (resolve_encoding w a) @ lg2\<rparr>)
          else (0, permute_columns w (parse_exclude (exclude_columns a)) (fst (resolve_encoding w a))
                     \<lparr>out_file = None, log = snd (resolve_encoding w a) @ lg2\<rparr>))"
  by (simp add: main_def Let_def split: prod.splits)

text \<open>
  Claim C7. When the validator cannot open the input path under the encoding of the run
  (the file is missing, or any other exception is raised by the open), validation
  reports failure, the process exits with status 1, and the output file has not been
  touched; the last log line names the failure.
\<close>

theorem input_open_failure_exits_before_output:
  assumes "open_input w (fst (resolve_encoding w a)) = Inl e"
  shows "fst (validate_input w (a\<lparr>encoding := fst (resolve_encoding w a)\<rparr>)) = False
       \<and> fst (main w a) = 1
       \<and> out_file (snd (main w a)) = None
       \<and> last (log (snd (main w a))) =
           (ERROR, if e = FileNotFoundError then Input_file_not_found
                   else Error_opening_input_file e)"
proof -
  have v: "validate_input w (a\<lparr>encoding := fst (resolve_encoding w a)\<rparr>) =
      (False, [(ERROR, if e = FileNotFoundError then Input_file_not_found
                       else Error_opening_input_file e)])"
    using assms by (simp add: validate_input_resolved)
  have m: "main w a = (1, \<lparr>out_file = None, log = snd (resolve_encoding w a) @
      [(ERROR, if e = FileNotFoundError then Input_file_not_found
               else Error_opening_input_file e)]\<rparr>)"
    by (simp add: main_unfold v)
  show ?thesis by (simp add: v m)
qed

theorem input_open_failure_witness:
  "open_input missing_input_env (fst (resolve_encoding missing_input_env default_args)) =
     Inl FileNotFoundError
   \<and> fst (main missing_input_env default_args) = 1
   \<and> out_file (snd (main missing_input_env default_args)) = None
   \<and> last (log (snd (main missing_input_env default_args))) = (ERROR, Input_file_not_found)"
proof -
  have h: "open_input missing_input_env (fst (resolve_encoding missing_input_env default_args)) =
      Inl FileNotFoundError"
    by (simp add: missing_input_env_def no_input_def)
  show ?thesis using input_open_failure_exits_before_output[OF h] h by simp
qed

text \<open>
  Claim C10. When the input decodes to no record at all and the output path can be
  opened, the run, in either mode, leaves an output file that exists and is empty: the
  output was opened before the read of the header raised. The exception is logged as an
  error, and the process exits with status 0.
\<close>

theorem empty_input_truncates_output:
  assumes "open_input w (fst (resolve_encoding w a)) = Inr []" and "open_output w = None"
  shows "fst (main w a) = 0
       \<and> out_file (snd (main w a)) = Some []
       \<and> log (snd (main w a)) = snd (resolve_encoding w a) @
           [(ERROR, if permute_rows_flag a then Error_permuting_rows StopIteration
                    else Error_permuting_columns StopIteration)]"
proof -
  have v: "validate_input w (a\<lparr>encoding := fst (resolve_encoding w a)\<rparr>) = (True, [])"
    using assms(1) by (simp add: validate_input_resolved)
  show ?thesis
  proof (cases "permute_rows_flag a")
    case True
    then show ?thesis using assms
      by (simp add: main_unfold v permute_rows_def rows_try_def rows_body_def)
  next
    case False
    then show ?thesis using assms
      by (simp add: main_unfold v permute_columns_def columns_try_def columns_body_def)
  qed
qed

theorem empty_input_witness:
  "open_input empty_env (fst (resolve_encoding empty_env default_args)) = Inr []
   \<and> open_output empty_env = None
   \<and> fst (main empty_env default_args) = 0
   \<and> out_file (snd (main empty_env default_args)) = Some []
   \<and> last (log (snd (main empty_env default_args))) =
       (ERROR, Error_permuting_columns StopIteration)"
proof -
  have h1: "open_input empty_env (fst (resolve_encoding empty_env default_args)) = Inr []"
    by (simp add: empty_env_def empty_input_def)
  have h2: "open_output empty_env = None"
    by (simp add: empty_env_def)
  have h3: "\<not> permute_rows_flag default_args"
    by (simp add: default_args_def)
  show ?thesis using empty_input_truncates_output[OF h1 h2] h1 h2 h3 by simp
qed

section \<open>What the column mode writes\<close>

lemma list_index_less: "list_index xs x = Some i \<Longrightarrow> i < length xs"
  by (induction xs arbitrary: i) (auto split: if_splits)

lemma resolve_token_bound:
  "E \<subseteq> {..<n} \<Longrightarrow> n = length header \<Longrightarrow> fst (resolve_token header n col (E, lg)) \<subseteq> {..<n}"
  by (auto simp: resolve_token_def split: option.splits dest: list_index_less)

lemma fold_resolve_bound:
  "fst st \<subseteq> {..<length header} \<Longrightarrow>
   fst (fold (resolve_token header (length header)) cols st) \<subseteq> {..<length header}"
proof (induction cols arbitrary: st)
  case Nil
  then show ?case by simp
next
  case (Cons col cols)
  obtain E lg where st: "st = (E, lg)" by (cases st)
  have "fst (resolve_token header (length header) col st) \<subseteq> {..<length header}"
    using Cons.prems resolve_token_bound[of E "length header" header col lg] st by simp
  then show ?case using Cons.IH by simp
qed

lemma resolve_bound: "fst (resolve header cols) \<subseteq> {..<length header}"
  unfolding resolve_def by (rule fold_resolve_bound) simp

lemma excluded_bound: "p \<in> excluded header exclude \<Longrightarrow> p < length header"
  using resolve_bound[of header "the exclude"] by (auto simp: excluded_def split: if_splits)

lemma free_positions_less: "i \<in> set (free_positions E n) \<Longrightarrow> i < n"
  by (simp add: free_positions_def)

lemma build_header_excl:
  assumes "truthy exclude"
  shows "build_header r header exclude =
     (Inr (With_exclusions (excluded header exclude)
             (free_positions (excluded header exclude) (length header)),
           map Some (header_image r header exclude)),
      snd (resolve header (the exclude)))"
proof -
  let ?E = "excluded header exclude" and ?n = "length header"
  have E: "fst (resolve header (the exclude)) = ?E" using assms by (simp add: excluded_def)
  have sel: "select header (free_positions ?E ?n) = Inr (map ((!) header) (free_positions ?E ?n))"
    by (rule select_in_range) (simp add: free_positions_less)
  have len: "length (shuffle r (map ((!) header) (free_positions ?E ?n))) = rank ?E ?n"
    by (simp add: length_free_positions)
  have pl: "place ?E header (shuffle r (map ((!) header) (free_positions ?E ?n))) [0..<?n]
              (replicate ?n None) 0 = Inr (map Some (header_image r header exclude))"
    using place_all[OF refl len] assms by (simp add: header_image_def comp_def)
  obtain E' lg where res: "resolve header (the exclude) = (E', lg)"
    by (cases "resolve header (the exclude)")
  with E have E': "E' = ?E" by simp
  show ?thesis
    using assms sel pl
    by (simp add: build_header_def Let_def res E' free_positions_def[symmetric])
qed

lemma shuffle_upt_less: "i \<in> set (shuffle r [0..<n]) \<Longrightarrow> i < n"
  by simp

lemma build_header_simple:
  assumes "\<not> truthy exclude"
  shows "build_header r header exclude =
     (Inr (Simple (shuffle r [0..<length header]), map Some (header_image r header exclude)), [])"
proof -
  have "select header (shuffle r [0..<length header]) =
          Inr (map ((!) header) (shuffle r [0..<length header]))"
    by (rule select_in_range) simp
  then show ?thesis using assms by (simp add: build_header_def header_image_def Let_def)
qed

lemma permute_row_excl:
  assumes "length row = n"
  shows "permute_row (With_exclusions E (free_positions E n)) n row = Inr (map Some row)"
proof -
  have sel: "select row (free_positions E n) = Inr (map ((!) row) (free_positions E n))"
    by (rule select_in_range) (simp add: free_positions_less assms)
  have len: "length (map ((!) row) (free_positions E n)) = rank E n"
    by (simp add: length_free_positions)
  have "map (\<lambda>i. Some (if i \<in> E then row ! i else map ((!) row) (free_positions E n) ! rank E i)) [0..<n]
        = map (\<lambda>i. Some (row ! i)) [0..<n]"
  proof (rule map_cong[OF refl])
    fix i assume "i \<in> set [0..<n]"
    then have i: "i < n" by simp
    show "Some (if i \<in> E then row ! i else map ((!) row) (free_positions E n) ! rank E i) = Some (row ! i)"
    proof (cases "i \<in> E")
      case True then show ?thesis by simp
    next
      case False
      then have "rank E i < length (free_positions E n)"
        using i by (simp add: length_free_positions rank_less)
      then show ?thesis using False i by (simp add: nth_free_rank)
    qed
  qed
  also have "\<dots> = map Some (map ((!) row) [0..<length row])"
    using assms by (simp add: comp_def)
  also have "\<dots> = map Some row"
    by (simp only: map_nth)
  finally show ?thesis
    using place_all[OF assms len] sel by (simp add: permute_row_def)
qed

lemma permute_row_simple:
  assumes "length row = n"
  shows "permute_row (Simple (shuffle r [0..<n])) n row = Inr (map Some (map ((!) row) (shuffle r [0..<n])))"
proof -
  have "select row (shuffle r [0..<n]) = Inr (map ((!) row) (shuffle r [0..<n]))"
    by (rule select_in_range) (simp add: assms)
  then show ?thesis by (simp add: permute_row_def)
qed

lemma csv_field_Some [simp]: "csv_field \<circ> Some = id"
  by (rule ext) (simp add: csv_field_def)

lemma writerow_Some_append:
  "writerow limit (map Some r) written = Inr written' \<Longrightarrow> written' = written @ [r]"
  by (auto simp: writerow_def split: option.splits if_splits)

lemma writerow_unlimited [simp]: "writerow None (map Some r) written = Inr (written @ [r])"
  by (simp add: writerow_def)

lemma rows_loop_prefix:
  assumes ok: "\<And>row. length row = n \<Longrightarrow> permute_row p n row = Inr (map Some (f row))"
  shows "\<exists>m. fst (snd (rows_loop limit p n items written lg)) =
           written @ take m (map f (retained n (records items)))"
proof (induction items arbitrary: written lg)
  case Nil
  show ?case by simp
next
  case (Cons it items)
  show ?case
  proof (cases it)
    case (Raise e)
    then show ?thesis by simp
  next
    case (Rec row)
    show ?thesis
    proof (cases "length row = n")
      case False
      then show ?thesis using Cons.IH Rec by (simp add: retained_def)
    next
      case True
      show ?thesis
      proof (cases "writerow limit (map Some (f row)) written")
        case (Inl e)
        then have "fst (snd (rows_loop limit p n (it # items) written lg)) = written @ take 0 (map f (retained n (records (it # items))))"
          using Rec True ok by simp
        then show ?thesis by blast
      next
        case (Inr written')
        then have w': "written' = written @ [f row]" by (rule writerow_Some_append)
        obtain m where m: "fst (snd (rows_loop limit p n items written' lg)) =
            written' @ take m (map f (retained n (records items)))"
          using Cons.IH by blast
        have "fst (snd (rows_loop limit p n (it # items) written lg)) =
            written @ take (Suc m) (map f (retained n (records (it # items))))"
          using Rec True ok Inr m w' by (simp add: retained_def)
        then show ?thesis by blast
      qed
    qed
  qed
qed

lemma rows_loop_complete:
  assumes ok: "\<And>row. length row = n \<Longrightarrow> permute_row p n row = Inr (map Some (f row))"
  shows "rows_loop None p n (map Rec rows) written lg =
           (None, written @ map f (retained n rows), lg @ map (skip_warning n) (dropped n rows))"
proof (induction rows arbitrary: written lg)
  case Nil
  show ?case by (simp add: retained_def dropped_def)
next
  case (Cons row rows)
  show ?case
  proof (cases "length row = n")
    case True
    then show ?thesis using Cons.IH ok by (simp add: retained_def dropped_def)
  next
    case False
    then show ?thesis using Cons.IH by (simp add: retained_def dropped_def skip_warning_def)
  qed
qed

lemma records_map_Rec [simp]: "records (map Rec rows) = rows"
  by (induction rows) simp_all

lemma build_header_image:
  "\<exists>p lg. build_header r header exclude = (Inr (p, map Some (header_image r header exclude)), lg)
     \<and> lg = (if truthy exclude then snd (resolve header (the exclude)) else [])
     \<and> (\<forall>row. length row = length header \<longrightarrow>
          permute_row p (length header) row = Inr (map Some (row_image r (length header) exclude row)))"
proof (cases "truthy exclude")
  case True
  then show ?thesis
    by (simp add: build_header_excl permute_row_excl row_image_def)
next
  case False
  then show ?thesis
    by (simp add: build_header_simple permute_row_simple row_image_def)
qed

lemma columns_body_prefix:
  "\<exists>m. fst (snd (columns_body r limit exclude (Rec header # rest))) =
     take m (header_image r header exclude #
             map (row_image r (length header) exclude) (retained (length header) (records rest)))"
proof -
  let ?n = "length header"
  obtain p lg where bh: "build_header r header exclude = (Inr (p, map Some (header_image r header exclude)), lg)"
    and ok: "\<And>row. length row = ?n \<Longrightarrow> permute_row p ?n row = Inr (map Some (row_image r ?n exclude row))"
    using build_header_image[of r header exclude] by blast
  show ?thesis
  proof (cases "writerow limit (map Some (header_image r header exclude)) []")
    case (Inl e)
    then have "fst (snd (columns_body r limit exclude (Rec header # rest))) =
       take 0 (header_image r header exclude #
             map (row_image r ?n exclude) (retained ?n (records rest)))"
      by (simp add: columns_body_def bh)
    then show ?thesis by blast
  next
    case (Inr written)
    then have w: "written = [header_image r header exclude]"
      using writerow_Some_append by fastforce
    obtain m where "fst (snd (rows_loop limit p ?n rest written lg)) =
        written @ take m (map (row_image r ?n exclude) (retained ?n (records rest)))"
      using rows_loop_prefix[of ?n p "row_image r ?n exclude" limit rest written lg] ok by blast
    then have "fst (snd (columns_body r limit exclude (Rec header # rest))) =
       take (Suc m) (header_image r header exclude #
             map (row_image r ?n exclude) (retained ?n (records rest)))"
      using Inr w by (simp add: columns_body_def bh)
    then show ?thesis by blast
  qed
qed

lemma columns_body_complete:
  "columns_body r None exclude (Rec header # map Rec rows) =
     (None,
      header_image r header exclude #
        map (row_image r (length header) exclude) (retained (length header) rows),
      (if truthy exclude then snd (resolve header (the exclude)) else []) @
        map (skip_warning (length header)) (dropped (length header) rows))"
proof -
  let ?n = "length header"
  obtain p lg where bh: "build_header r header exclude = (Inr (p, map Some (header_image r header exclude)), lg)"
    and lg: "lg = (if truthy exclude then snd (resolve header (the exclude)) else [])"
    and ok: "\<And>row. length row = ?n \<Longrightarrow> permute_row p ?n row = Inr (map Some (row_image r ?n exclude row))"
    using build_header_image[of r header exclude] by blast
  show ?thesis
    using rows_loop_complete[of ?n p "row_image r ?n exclude" rows "[header_image r header exclude]" lg] ok lg
    by (simp add: columns_body_def bh)
qed

lemma permute_columns_written:
  assumes "open_input w enc = Inr (Rec header # rest)" and "out_file s = None"
    and "out_file (permute_columns w exclude enc s) = Some (oh # orows)"
  shows "oh = header_image (rnd w) header exclude \<and>
         (\<exists>m. orows = take m (map (row_image (rnd w) (length header) exclude)
                               (retained (length header) (records rest))))"
proof -
  let ?full = "header_image (rnd w) header exclude #
     map (row_image (rnd w) (length header) exclude) (retained (length header) (records rest))"
  have oo: "open_output w = None"
    using assms by (auto simp: permute_columns_def columns_try_def split: option.splits prod.splits)
  obtain m where m: "fst (snd (columns_body (rnd w) (write_limit w) exclude (Rec header # rest))) = take m ?full"
    using columns_body_prefix by blast
  have "out_file (permute_columns w exclude enc s) =
      Some (fst (snd (columns_body (rnd w) (write_limit w) exclude (Rec header # rest))))"
    using assms(1) oo by (simp add: permute_columns_def columns_try_def split: prod.splits)
  with m assms(3) have eq: "oh # orows = take m ?full" by simp
  then obtain m' where m': "m = Suc m'" by (cases m) auto
  with eq show ?thesis by auto
qed

section \<open>Column mode: excluded positions, multisets, and the rows under exclusion\<close>

lemma sample_run_excluding:
  "permute_columns sample_env (Some [''0'', ''zzz'']) None fresh =
     \<lparr>out_file = Some [[''a'', ''c'', ''b''], [''1'', ''2'', ''3''], [''4'', ''5'', ''6'']],
      log = [(WARNING, Column_name_not_found ''zzz''), (WARNING, Skipping_row 1 3),
             (INFO, Columns_permuted_successfully)]\<rparr>"
  by code_simp

lemma sample_open: "open_input sample_env None =
    Inr (Rec [''a'', ''b'', ''c''] # [Rec [''1'', ''2'', ''3''], Rec [''x''], Rec [''4'', ''5'', ''6'']])"
  by (simp add: sample_env_def sample_input_def)

lemma fresh_untouched: "out_file fresh = None"
  by (simp add: fresh_def)

lemma sample_out_excluding:
  "out_file (permute_columns sample_env (Some [''0'', ''zzz'']) None fresh) =
     Some ([''a'', ''c'', ''b''] # [[''1'', ''2'', ''3''], [''4'', ''5'', ''6'']])"
  by (simp add: sample_run_excluding)

lemma length_header_image [simp]: "length (header_image r header exclude) = length header"
  by (simp add: header_image_def)

lemma header_image_excluded:
  assumes "p \<in> excluded header exclude"
  shows "header_image r header exclude ! p = header ! p"
proof -
  have t: "truthy exclude" using assms by (auto simp: excluded_def split: if_splits)
  have "p < length header" using assms by (rule excluded_bound)
  then show ?thesis using assms t by (simp add: header_image_def)
qed

lemma header_image_free:
  assumes "truthy exclude"
  shows "map ((!) (header_image r header exclude))
           (free_positions (excluded header exclude) (length header)) =
         shuffle r (map ((!) header) (free_positions (excluded header exclude) (length header)))"
proof -
  let ?E = "excluded header exclude" and ?n = "length header"
  let ?vals = "shuffle r (map ((!) header) (free_positions ?E ?n))"
  have len: "length ?vals = rank ?E ?n" by (simp add: length_free_positions)
  have "map ((!) (header_image r header exclude)) (free_positions ?E ?n) =
        map (\<lambda>i. ?vals ! rank ?E i) (free_positions ?E ?n)"
  proof (rule map_cong[OF refl])
    fix i assume "i \<in> set (free_positions ?E ?n)"
    then have "i < ?n" "i \<notin> ?E" by (simp_all add: free_positions_def)
    then show "header_image r header exclude ! i = ?vals ! rank ?E i"
      using assms by (simp add: header_image_def)
  qed
  also have "\<dots> = take (rank ?E ?n) ?vals"
    using map_rank_free[OF le_refl len] .
  also have "\<dots> = ?vals" using len by simp
  finally show ?thesis .
qed

lemma excluded_simple: "\<not> truthy exclude \<Longrightarrow> excluded header exclude = {}"
  by (simp add: excluded_def)

lemma free_positions_empty [simp]: "free_positions {} n = [0..<n]"
  by (simp add: free_positions_def)

lemma mset_select_shuffled:
  assumes "length xs = n"
  shows "mset (map ((!) (map ((!) xs) (shuffle r [0..<n]))) [0..<n]) = mset (map ((!) xs) [0..<n])"
proof -
  let ?ys = "map ((!) xs) (shuffle r [0..<n])"
  have "length ?ys = n" by simp
  then have "map ((!) ?ys) [0..<n] = ?ys" by (metis map_nth)
  then have "mset (map ((!) ?ys) [0..<n]) = image_mset ((!) xs) (mset (shuffle r [0..<n]))"
    by simp
  also have "\<dots> = mset (map ((!) xs) [0..<n])" by simp
  finally show ?thesis .
qed

lemma retained_length: "k < length (retained n rows) \<Longrightarrow> length (retained n rows ! k) = n"
  using nth_mem[of k "retained n rows"] by (simp add: retained_def)

lemma sample_run_simple:
  "out_file (permute_columns sample_env None None fresh) =
     Some ([''b'', ''c'', ''a''] # [[''2'', ''3'', ''1''], [''5'', ''6'', ''4'']])"
  by code_simp

text \<open>
  Claim C2. In a column-mode run that starts with the output untouched and reads the
  header, whatever the later failures: every written data row is the image of a retained
  input row (one with the header's field count), in input order, and at every position of
  the resolved excluded set the written header and every written data row carry the
  input value of that position.
\<close>

theorem excluded_positions_fixed:
  assumes "open_input w enc = Inr (Rec header # rest)" and "out_file s = None"
    and "out_file (permute_columns w exclude enc s) = Some (oh # orows)"
  shows "length orows \<le> length (retained (length header) (records rest)) \<and>
         (\<forall>p \<in> excluded header exclude.
            oh ! p = header ! p \<and>
            (\<forall>k < length orows.
               orows ! k ! p = retained (length header) (records rest) ! k ! p))"
proof -
  let ?kept = "retained (length header) (records rest)"
  obtain m where oh: "oh = header_image (rnd w) header exclude"
    and orows: "orows = take m (map (row_image (rnd w) (length header) exclude) ?kept)"
    using permute_columns_written[OF assms] by blast
  have len: "length orows \<le> length ?kept" using orows by simp
  have "oh ! p = header ! p \<and> (\<forall>k < length orows. orows ! k ! p = ?kept ! k ! p)"
    if p: "p \<in> excluded header exclude" for p
  proof -
    have t: "truthy exclude" using p by (auto simp: excluded_def split: if_splits)
    have "orows ! k = ?kept ! k" if "k < length orows" for k
      using that orows t by (simp add: row_image_def)
    then show ?thesis using oh p by (simp add: header_image_excluded)
  qed
  then show ?thesis using len by blast
qed

theorem excluded_positions_fixed_witness:
  "out_file (permute_columns sample_env (Some [''0'', ''zzz'']) None fresh) =
     Some ([''a'', ''c'', ''b''] # [[''1'', ''2'', ''3''], [''4'', ''5'', ''6'']])
   \<and> (0::nat) \<in> excluded [''a'', ''b'', ''c''] (Some [''0'', ''zzz''])
   \<and> [''a'', ''c'', ''b''] ! 0 = [''a'', ''b'', ''c''] ! 0
   \<and> [[''1'', ''2'', ''3''], [''4'', ''5'', ''6'']] ! 1 ! 0 =
       retained (length [''a'', ''b'', ''c'']) (records [Rec [''1'', ''2'', ''3''], Rec [''x''], Rec [''4'', ''5'', ''6'']]) ! 1 ! 0"
proof -
  have e: "(0::nat) \<in> excluded [''a'', ''b'', ''c''] (Some [''0'', ''zzz''])" by code_simp
  have k: "(1::nat) < length [[''1'', ''2'', ''3''], [''4'', ''5'', ''6'']]" by simp
  note T = excluded_positions_fixed[OF sample_open fresh_untouched sample_out_excluding]
  from T e have P: "[''a'', ''c'', ''b''] ! 0 = [''a'', ''b'', ''c''] ! 0 \<and>
      (\<forall>k < length [[''1'', ''2'', ''3''], [''4'', ''5'', ''6'']].
         [[''1'', ''2'', ''3''], [''4'', ''5'', ''6'']] ! k ! 0 =
         retained (length [''a'', ''b'', ''c'']) (records [Rec [''1'', ''2'', ''3''], Rec [''x''], Rec [''4'', ''5'', ''6'']]) ! k ! 0)"
    by blast
  from P k have "[[''1'', ''2'', ''3''], [''4'', ''5'', ''6'']] ! 1 ! 0 =
       retained (length [''a'', ''b'', ''c'']) (records [Rec [''1'', ''2'', ''3''], Rec [''x''], Rec [''4'', ''5'', ''6'']]) ! 1 ! 0"
    by blast
  with P e sample_out_excluding show ?thesis by blast
qed

text \<open>
  Claim C9. When the exclusion list is non-empty, every written data row has, at every
  position outside the excluded set, the input value of that same position, while the
  values of the header at those positions are the shuffled ones.
\<close>

theorem rows_unpermuted_under_exclusion:
  assumes "truthy exclude"
    and "open_input w enc = Inr (Rec header # rest)" and "out_file s = None"
    and "out_file (permute_columns w exclude enc s) = Some (oh # orows)"
  shows "length orows \<le> length (retained (length header) (records rest)) \<and>
         (\<forall>k < length orows. \<forall>i < length header.
            i \<notin> excluded header exclude \<longrightarrow>
            orows ! k ! i = retained (length header) (records rest) ! k ! i) \<and>
         map ((!) oh) (free_positions (excluded header exclude) (length header)) =
           shuffle (rnd w)
             (map ((!) header) (free_positions (excluded header exclude) (length header)))"
proof -
  let ?kept = "retained (length header) (records rest)"
  obtain m where oh: "oh = header_image (rnd w) header exclude"
    and orows: "orows = take m (map (row_image (rnd w) (length header) exclude) ?kept)"
    using permute_columns_written[OF assms(2-4)] by blast
  have len: "length orows \<le> length ?kept" using orows by simp
  have rows: "orows ! k = ?kept ! k" if "k < length orows" for k
    using that orows assms(1) by (simp add: row_image_def)
  have hdr: "map ((!) oh) (free_positions (excluded header exclude) (length header)) =
      shuffle (rnd w) (map ((!) header) (free_positions (excluded header exclude) (length header)))"
    unfolding oh using assms(1) by (rule header_image_free)
  show ?thesis using len rows hdr by simp
qed

theorem rows_unpermuted_under_exclusion_witness:
  "truthy (Some [''0'', ''zzz''])
   \<and> out_file (permute_columns sample_env (Some [''0'', ''zzz'']) None fresh) =
       Some ([''a'', ''c'', ''b''] # [[''1'', ''2'', ''3''], [''4'', ''5'', ''6'']])
   \<and> (1::nat) \<notin> excluded [''a'', ''b'', ''c''] (Some [''0'', ''zzz''])
   \<and> [[''1'', ''2'', ''3''], [''4'', ''5'', ''6'']] ! 0 ! 1 =
       retained (length [''a'', ''b'', ''c'']) (records [Rec [''1'', ''2'', ''3''], Rec [''x''], Rec [''4'', ''5'', ''6'']]) ! 0 ! 1
   \<and> map ((!) [''a'', ''c'', ''b'']) (free_positions (excluded [''a'', ''b'', ''c''] (Some [''0'', ''zzz''])) (length [''a'', ''b'', ''c''])) =
       shuffle (rnd sample_env)
         (map ((!) [''a'', ''b'', ''c'']) (free_positions (excluded [''a'', ''b'', ''c''] (Some [''0'', ''zzz''])) (length [''a'', ''b'', ''c''])))"
proof -
  have t: "truthy (Some [''0'', ''zzz''])" by (simp add: truthy_def)
  have e: "(1::nat) \<notin> excluded [''a'', ''b'', ''c''] (Some [''0'', ''zzz''])" by code_simp
  have k: "(0::nat) < length [[''1'', ''2'', ''3''], [''4'', ''5'', ''6'']]" by simp
  have i: "(1::nat) < length [''a'', ''b'', ''c'']" by simp
  note T = rows_unpermuted_under_exclusion[OF t sample_open fresh_untouched sample_out_excluding]
  from T k i e have "[[''1'', ''2'', ''3''], [''4'', ''5'', ''6'']] ! 0 ! 1 =
       retained (length [''a'', ''b'', ''c'']) (records [Rec [''1'', ''2'', ''3''], Rec [''x''], Rec [''4'', ''5'', ''6'']]) ! 0 ! 1"
    by blast
  with T t e sample_out_excluding show ?thesis by blast
qed

text \<open>
  Claim C5. In a column-mode run, for every outcome of the shuffle, the values of the
  written header at the non-excluded positions are, as a multiset, the values of the input
  header at those positions, and the same holds for every written data row against the
  retained input row it comes from.
\<close>

theorem free_values_multiset_preserved:
  assumes "open_input w enc = Inr (Rec header # rest)" and "out_file s = None"
    and "out_file (permute_columns w exclude enc s) = Some (oh # orows)"
  shows "mset (map ((!) oh) (free_positions (excluded header exclude) (length header))) =
         mset (map ((!) header) (free_positions (excluded header exclude) (length header))) \<and>
         length orows \<le> length (retained (length header) (records rest)) \<and>
         (\<forall>k < length orows.
            mset (map ((!) (orows ! k)) (free_positions (excluded header exclude) (length header))) =
            mset (map ((!) (retained (length header) (records rest) ! k))
                   (free_positions (excluded header exclude) (length header))))"
proof -
  let ?kept = "retained (length header) (records rest)"
  let ?n = "length header"
  obtain m where oh: "oh = header_image (rnd w) header exclude"
    and orows: "orows = take m (map (row_image (rnd w) ?n exclude) ?kept)"
    using permute_columns_written[OF assms] by blast
  have len: "length orows \<le> length ?kept" using orows by simp
  show ?thesis
  proof (cases "truthy exclude")
    case True
    have rows: "orows ! k = ?kept ! k" if "k < length orows" for k
      using that orows True by (simp add: row_image_def)
    have "mset (map ((!) oh) (free_positions (excluded header exclude) ?n)) =
          mset (map ((!) header) (free_positions (excluded header exclude) ?n))"
      unfolding oh by (simp add: header_image_free[OF True])
    then show ?thesis using len rows by simp
  next
    case False
    have E: "excluded header exclude = {}" using False by (rule excluded_simple)
    have h: "mset (map ((!) oh) [0..<?n]) = mset (map ((!) header) [0..<?n])"
      unfolding oh using False mset_select_shuffled[OF refl, of header "rnd w"]
      by (simp add: header_image_def)
    have r: "mset (map ((!) (orows ! k)) [0..<?n]) = mset (map ((!) (?kept ! k)) [0..<?n])"
      if k: "k < length orows" for k
    proof -
      have kk: "k < length ?kept" using k len by simp
      then have l: "length (?kept ! k) = ?n" by (rule retained_length)
      have "orows ! k = map ((!) (?kept ! k)) (shuffle (rnd w) [0..<?n])"
        using k kk orows False by (simp add: row_image_def)
      then show ?thesis using mset_select_shuffled[OF l, of "rnd w"] by simp
    qed
    show ?thesis using h r len by (simp add: E)
  qed
qed

theorem free_values_multiset_preserved_witness:
  "out_file (permute_columns sample_env None None fresh) =
     Some ([''b'', ''c'', ''a''] # [[''2'', ''3'', ''1''], [''5'', ''6'', ''4'']])
   \<and> mset (map ((!) [''b'', ''c'', ''a'']) (free_positions (excluded [''a'', ''b'', ''c''] None) (length [''a'', ''b'', ''c'']))) =
       mset (map ((!) [''a'', ''b'', ''c'']) (free_positions (excluded [''a'', ''b'', ''c''] None) (length [''a'', ''b'', ''c''])))
   \<and> mset (map ((!) ([[''2'', ''3'', ''1''], [''5'', ''6'', ''4'']] ! 0))
            (free_positions (excluded [''a'', ''b'', ''c''] None) (length [''a'', ''b'', ''c'']))) =
       mset (map ((!) (retained (length [''a'', ''b'', ''c'']) (records [Rec [''1'', ''2'', ''3''], Rec [''x''], Rec [''4'', ''5'', ''6'']]) ! 0))
            (free_positions (excluded [''a'', ''b'', ''c''] None) (length [''a'', ''b'', ''c''])))"
proof -
  have k: "(0::nat) < length [[''2'', ''3'', ''1''], [''5'', ''6'', ''4'']]" by simp
  note T = free_values_multiset_preserved[OF sample_open fresh_untouched sample_run_simple]
  from T k have "mset (map ((!) ([[''2'', ''3'', ''1''], [''5'', ''6'', ''4'']] ! 0))
            (free_positions (excluded [''a'', ''b'', ''c''] None) (length [''a'', ''b'', ''c'']))) =
       mset (map ((!) (retained (length [''a'', ''b'', ''c'']) (records [Rec [''1'', ''2'', ''3''], Rec [''x''], Rec [''4'', ''5'', ''6'']]) ! 0))
            (free_positions (excluded [''a'', ''b'', ''c''] None) (length [''a'', ''b'', ''c''])))"
    by blast
  with T sample_run_simple show ?thesis by blast
qed

section \<open>Complete runs, and the treatment of rows of the wrong width\<close>

lemma read_all_map_Rec [simp]: "read_all (map Rec rows) = Inr rows"
  by (induction rows) simp_all

lemma writerows_unlimited [simp]: "writerows None rows written = (None, written @ rows)"
  by (induction rows arbitrary: written) simp_all

lemma permute_rows_complete:
  assumes "open_input w enc = Inr (Rec header # map Rec rows)"
    and "open_output w = None" and "write_limit w = None"
  shows "permute_rows w exclude enc s =
           \<lparr>out_file = Some (header # shuffle (rnd w) rows),
            log = log s @ [(INFO, Rows_permuted_successfully)]\<rparr>"
  using assms by (simp add: permute_rows_def rows_try_def rows_body_def)

lemma permute_columns_complete:
  assumes "open_input w enc = Inr (Rec header # map Rec rows)"
    and "open_output w = None" and "write_limit w = None"
  shows "permute_columns w exclude enc s =
           \<lparr>out_file = Some (header_image (rnd w) header exclude #
               map (row_image (rnd w) (length header) exclude) (retained (length header) rows)),
            log = log s @
              ((if truthy exclude then snd (resolve header (the exclude)) else []) @
               map (skip_warning (length header)) (dropped (length header) rows)) @
              [(INFO, Columns_permuted_successfully)]\<rparr>"
  using assms by (simp add: permute_columns_def columns_try_def columns_body_complete)

lemma skip_warnings_append [simp]: "skip_warnings (xs @ ys) = skip_warnings xs @ skip_warnings ys"
  by (simp add: skip_warnings_def)

lemma skip_warnings_skips [simp]: "skip_warnings (map (skip_warning n) rows) = map (skip_warning n) rows"
  by (induction rows) (simp_all add: skip_warnings_def skip_warning_def)

lemma skip_warnings_resolve_token:
  "skip_warnings (snd st) = [] \<Longrightarrow> skip_warnings (snd (resolve_token header n col st)) = []"
  by (cases st) (auto simp: resolve_token_def skip_warnings_def split: option.splits)

lemma skip_warnings_fold:
  "skip_warnings (snd st) = [] \<Longrightarrow>
   skip_warnings (snd (fold (resolve_token header n) cols st)) = []"
  by (induction cols arbitrary: st) (simp_all add: skip_warnings_resolve_token)

lemma skip_warnings_resolve [simp]: "skip_warnings (snd (resolve header cols)) = []"
  unfolding resolve_def by (rule skip_warnings_fold) (simp add: skip_warnings_def)

lemma length_row_image: "length row = n \<Longrightarrow> length (row_image r n exclude row) = n"
  by (simp add: row_image_def)

lemma sample_open_rows:
  "open_input sample_env None = Inr (Rec [''a'', ''b'', ''c''] # map Rec [[''1'', ''2'', ''3''], [''x''], [''4'', ''5'', ''6'']])"
  by (simp add: sample_env_def sample_input_def)

lemma sample_output_opens: "open_output sample_env = None"
  by (simp add: sample_env_def)

lemma sample_writes_unlimited: "write_limit sample_env = None"
  by (simp add: sample_env_def)

text \<open>
  Claim C4. In row mode, when the input is a table (a header followed by data rows), the
  output path opens and no write fails, the output is the unchanged header followed by
  the data rows in shuffled order: as a multiset the written rows are the input rows,
  each written as it was read.
\<close>

theorem row_mode_permutes_rows:
  assumes "open_input w enc = Inr (Rec header # map Rec rows)"
    and "open_output w = None" and "write_limit w = None"
  shows "\<exists>orows. out_file (permute_rows w exclude enc s) = Some (header # orows)
           \<and> mset orows = mset rows \<and> set orows = set rows"
  using permute_rows_complete[OF assms] by simp

theorem row_mode_permutes_rows_witness:
  "open_input sample_env None = Inr (Rec [''a'', ''b'', ''c''] # map Rec [[''1'', ''2'', ''3''], [''x''], [''4'', ''5'', ''6'']])
   \<and> open_output sample_env = None
   \<and> write_limit sample_env = None
   \<and> (\<exists>orows. out_file (permute_rows sample_env None None fresh) = Some ([''a'', ''b'', ''c''] # orows)
          \<and> mset orows = mset [[''1'', ''2'', ''3''], [''x''], [''4'', ''5'', ''6'']]
          \<and> set orows = set [[''1'', ''2'', ''3''], [''x''], [''4'', ''5'', ''6'']])"
  using row_mode_permutes_rows[OF sample_open_rows sample_output_opens sample_writes_unlimited,
      where exclude = None and s = fresh]
    sample_open_rows sample_output_opens sample_writes_unlimited
  by blast

text \<open>
  Claim C3, as the code has it. In a complete run (a table as input, the output path
  opens, no write fails): column mode writes one data row for each input row with the
  header's field count and none for the others, every written row has the header's field
  count, the log holds exactly one skip warning for each dropped row, in input order, and
  the run ends with the success line; row mode makes no check of the field count: every
  input row is written whatever its width, and the log gains the success line only.
\<close>

theorem width_check_in_column_mode_only:
  assumes "open_input w enc = Inr (Rec header # map Rec rows)"
    and "open_output w = None" and "write_limit w = None"
  shows "(\<exists>oh orows lg.
            out_file (permute_columns w exclude enc s) = Some (oh # orows)
          \<and> length orows = length (retained (length header) rows)
          \<and> (\<forall>r \<in> set orows. length r = length header)
          \<and> log (permute_columns w exclude enc s) =
              log s @ lg @ [(INFO, Columns_permuted_successfully)]
          \<and> skip_warnings lg = map (skip_warning (length header)) (dropped (length header) rows))
       \<and> (\<exists>orows.
            out_file (permute_rows w exclude enc s) = Some (header # orows)
          \<and> mset orows = mset rows
          \<and> log (permute_rows w exclude enc s) = log s @ [(INFO, Rows_permuted_successfully)])"
proof -
  let ?n = "length header"
  let ?orows = "map (row_image (rnd w) ?n exclude) (retained ?n rows)"
  let ?lg = "(if truthy exclude then snd (resolve header (the exclude)) else []) @
               map (skip_warning ?n) (dropped ?n rows)"
  have w: "\<forall>r \<in> set ?orows. length r = ?n"
    by (auto simp: retained_def length_row_image)
  have sk: "skip_warnings ?lg = map (skip_warning ?n) (dropped ?n rows)"
    by (simp add: skip_warnings_def[of "[]"])
  have c: "out_file (permute_columns w exclude enc s) = Some (header_image (rnd w) header exclude # ?orows)
      \<and> length ?orows = length (retained ?n rows)
      \<and> (\<forall>r \<in> set ?orows. length r = ?n)
      \<and> log (permute_columns w exclude enc s) = log s @ ?lg @ [(INFO, Columns_permuted_successfully)]
      \<and> skip_warnings ?lg = map (skip_warning ?n) (dropped ?n rows)"
    using w sk by (simp add: permute_columns_complete[OF assms])
  have r: "out_file (permute_rows w exclude enc s) = Some (header # shuffle (rnd w) rows)
      \<and> mset (shuffle (rnd w) rows) = mset rows
      \<and> log (permute_rows w exclude enc s) = log s @ [(INFO, Rows_permuted_successfully)]"
    by (simp add: permute_rows_complete[OF assms])
  from c r show ?thesis by blast
qed

theorem width_check_in_column_mode_only_witness:
  "open_input sample_env None = Inr (Rec [''a'', ''b'', ''c''] # map Rec [[''1'', ''2'', ''3''], [''x''], [''4'', ''5'', ''6'']])
   \<and> open_output sample_env = None
   \<and> write_limit sample_env = None
   \<and> (\<exists>oh orows lg.
          out_file (permute_columns sample_env None None fresh) = Some (oh # orows)
        \<and> length orows = length (retained (length [''a'', ''b'', ''c'']) [[''1'', ''2'', ''3''], [''x''], [''4'', ''5'', ''6'']])
        \<and> (\<forall>r \<in> set orows. length r = length [''a'', ''b'', ''c''])
        \<and> log (permute_columns sample_env None None fresh) =
            log fresh @ lg @ [(INFO, Columns_permuted_successfully)]
        \<and> skip_warnings lg =
            map (skip_warning (length [''a'', ''b'', ''c''])) (dropped (length [''a'', ''b'', ''c'']) [[''1'', ''2'', ''3''], [''x''], [''4'', ''5'', ''6'']]))
   \<and> (\<exists>orows.
          out_file (permute_rows sample_env None None fresh) = Some ([''a'', ''b'', ''c''] # orows)
        \<and> mset orows = mset [[''1'', ''2'', ''3''], [''x''], [''4'', ''5'', ''6'']]
        \<and> log (permute_rows sample_env None None fresh) =
            log fresh @ [(INFO, Rows_permuted_successfully)])"
  using width_check_in_column_mode_only[OF sample_open_rows sample_output_opens
      sample_writes_unlimited, where exclude = None and s = fresh]
    sample_open_rows sample_output_opens sample_writes_unlimited
  by blast

text \<open>
  The claim as the specification states it fails in row mode: the sample table has a data
  row with one field under a header with three; the row-mode run writes that row and
  logs no warning.
\<close>

theorem ragged_row_written_in_row_mode:
  "permute_rows sample_env None None fresh =
     \<lparr>out_file = Some [[''a'', ''b'', ''c''], [''x''], [''4'', ''5'', ''6''], [''1'', ''2'', ''3'']],
      log = [(INFO, Rows_permuted_successfully)]\<rparr>"
  by code_simp

section \<open>The header moves, the data stays\<close>

text \<open>
  Claim C1. Run from the command line with \<^verbatim>\<open>--exclude_columns 0\<close> on the sample
  table, with a generator whose draws all give 0: the header \<open>a, b, c\<close> is written as
  \<open>a, c, b\<close>, so the name at output position 1 comes from input position 2, while the
  data rows are written as they were read, so the value at output position 1 comes from
  input position 1. The mapping of the header is not applied to the rows.
\<close>

theorem header_shuffled_rows_left_in_place:
  "main sample_env (default_args\<lparr>exclude_columns := ''0''\<rparr>) =
     (0, \<lparr>out_file = Some [[''a'', ''c'', ''b''], [''1'', ''2'', ''3''], [''4'', ''5'', ''6'']],
          log = [(INFO, Detected_encoding ''ascii''), (WARNING, Skipping_row 1 3),
                 (INFO, Columns_permuted_successfully)]\<rparr>)"
  by code_simp

section \<open>The column resolver\<close>

lemma first_position_Cons:
  "first_position (y # ys) col = (if y = col then 0 else Suc (first_position ys col))"
  by (simp add: first_position_def)

lemma list_index_spec:
  "list_index header col =
     (if col \<in> set header then Some (first_position header col) else None)"
  by (induction header) (auto simp: first_position_Cons first_position_def)

lemma first_position_finds:
  "col \<in> set header \<Longrightarrow>
   first_position header col < length header \<and> header ! first_position header col = col \<and>
   (\<forall>q < first_position header col. header ! q \<noteq> col)"
proof (induction header)
  case Nil
  then show ?case by simp
next
  case (Cons y ys)
  show ?case
  proof (cases "y = col")
    case True
    then show ?thesis by (simp add: first_position_Cons)
  next
    case False
    then have "col \<in> set ys" using Cons.prems by simp
    then have IH: "first_position ys col < length ys \<and> ys ! first_position ys col = col \<and>
       (\<forall>q < first_position ys col. ys ! q \<noteq> col)" by (rule Cons.IH)
    show ?thesis using False IH by (auto simp: first_position_Cons nth_Cons split: nat.splits)
  qed
qed

lemma resolve_token_spec:
  "resolve_token header (length header) col (E, lg) =
     (case spec_position header col of
        Some p \<Rightarrow> (insert p E, lg)
      | None \<Rightarrow> (E, lg @ [spec_warning col]))"
  by (simp add: resolve_token_def spec_position_def spec_warning_def list_index_spec
      split: option.splits)

lemma fold_resolve_spec:
  "fold (resolve_token header (length header)) cols (E, lg) =
     (E \<union> set (List.map_filter (spec_position header) cols),
      lg @ map spec_warning (filter (\<lambda>col. spec_position header col = None) cols))"
proof (induction cols arbitrary: E lg)
  case Nil
  show ?case by (simp add: List.map_filter_simps)
next
  case (Cons col cols)
  show ?case
  proof (cases "spec_position header col")
    case None
    then show ?thesis by (simp add: resolve_token_spec Cons.IH List.map_filter_simps)
  next
    case (Some p)
    then show ?thesis by (simp add: resolve_token_spec Cons.IH List.map_filter_simps)
  qed
qed

lemma spec_position_less: "spec_position header col = Some p \<Longrightarrow> p < length header"
  using first_position_finds[of col header]
  by (auto simp: spec_position_def split: option.splits if_splits)

text \<open>
  Claim C6. A token that parses as an integer inside \<open>[0, num_columns)\<close> adds that
  position; a token that does not parse adds the first position of the header holding
  exactly that name; any other token (an integer out of range, an unknown name) adds
  nothing and logs one warning, and the loop goes on. The result of the whole loop is the
  set of the positions the tokens stand for, so that a repeated token changes nothing, with
  one warning for each unresolved token, in order.
\<close>

theorem exclusion_tokens_resolved:
  "resolve_token header (length header) col (E, lg) =
     (case spec_position header col of
        Some p \<Rightarrow> (insert p E, lg)
      | None \<Rightarrow> (E, lg @ [spec_warning col]))
   \<and> resolve header cols =
       (set (List.map_filter (spec_position header) cols),
        map spec_warning (filter (\<lambda>col. spec_position header col = None) cols))
   \<and> fst (resolve header (cols @ cols)) = fst (resolve header cols)
   \<and> (\<forall>p. spec_position header col = Some p \<longrightarrow> p < length header)
   \<and> (py_int col = None \<and> col \<in> set header \<longrightarrow>
        header ! first_position header col = col \<and>
        (\<forall>q < first_position header col. header ! q \<noteq> col))"
proof -
  have r: "resolve header cs =
       (set (List.map_filter (spec_position header) cs),
        map spec_warning (filter (\<lambda>col. spec_position header col = None) cs))" for cs
    by (simp add: resolve_def fold_resolve_spec)
  have d: "fst (resolve header (cols @ cols)) = fst (resolve header cols)"
    by (simp add: r List.map_filter_def)
  show ?thesis
    using resolve_token_spec r[of cols] d spec_position_less first_position_finds by blast
qed

theorem exclusion_tokens_resolved_witness:
  "resolve [''a'', ''b'', ''c'', ''d''] [''b'', ''3'', ''zzz'', ''99'', ''b''] =
     ({1, 3}, [(WARNING, Column_name_not_found ''zzz''), (WARNING, Invalid_column_index ''99'')])"
proof -
  have "resolve [''a'', ''b'', ''c'', ''d''] [''b'', ''3'', ''zzz'', ''99'', ''b''] =
       (set (List.map_filter (spec_position [''a'', ''b'', ''c'', ''d''])
              [''b'', ''3'', ''zzz'', ''99'', ''b'']),
        map spec_warning (filter (\<lambda>col. spec_position [''a'', ''b'', ''c'', ''d''] col = None)
              [''b'', ''3'', ''zzz'', ''99'', ''b'']))"
    using exclusion_tokens_resolved[of "[''a'', ''b'', ''c'', ''d'']" _ _ _
        "[''b'', ''3'', ''zzz'', ''99'', ''b'']"]
    by blast
  also have "\<dots> = ({1, 3}, [(WARNING, Column_name_not_found ''zzz''), (WARNING, Invalid_column_index ''99'')])"
    by code_simp
  finally show ?thesis .
qed

section \<open>Exceptions during the permutation\<close>

text \<open>
  Claim C8. Once validation has passed, whatever exception leaves the \<^verbatim>\<open>with\<close> block
  of the permutation function (opening the output, reading a record, writing a record, in
  either mode): the last log line is the error line of that mode carrying the exception,
  the output file holds exactly the records written before the exception (or was never
  opened), and the process exits with status 0.
\<close>

theorem permutation_exception_logged_exit_zero:
  assumes "open_input w (fst (resolve_encoding w a)) = Inr items"
    and "fst (permutation_outcome w a) = Some e"
  shows "fst (main w a) = 0
       \<and> last (log (snd (main w a))) =
           (ERROR, if permute_rows_flag a then Error_permuting_rows e
                   else Error_permuting_columns e)
       \<and> out_file (snd (main w a)) = snd (permutation_outcome w a)"
proof -
  have v: "validate_input w (a\<lparr>encoding := fst (resolve_encoding w a)\<rparr>) = (True, [])"
    using assms(1) by (simp add: validate_input_resolved)
  show ?thesis
  proof (cases "permute_rows_flag a")
    case True
    then show ?thesis using assms(2)
      by (auto simp: main_unfold v permutation_outcome_def permute_rows_def
          split: prod.splits option.splits)
  next
    case False
    then show ?thesis using assms(2)
      by (auto simp: main_unfold v permutation_outcome_def permute_columns_def
          split: prod.splits option.splits)
  qed
qed

lemma full_disk_open:
  "open_input full_disk_env (fst (resolve_encoding full_disk_env (default_args\<lparr>permute_rows_flag := True\<rparr>))) =
     Inr [Rec [''a'', ''b'', ''c''], Rec [''1'', ''2'', ''3''], Rec [''x''], Rec [''4'', ''5'', ''6'']]"
  by (simp add: full_disk_env_def sample_env_def sample_input_def)

lemma full_disk_outcome:
  "permutation_outcome full_disk_env (default_args\<lparr>permute_rows_flag := True\<rparr>) =
     (Some OSError, Some [[''a'', ''b'', ''c''], [''x'']])"
  by code_simp

theorem permutation_exception_witness:
  "fst (permutation_outcome full_disk_env (default_args\<lparr>permute_rows_flag := True\<rparr>)) = Some OSError
   \<and> fst (main full_disk_env (default_args\<lparr>permute_rows_flag := True\<rparr>)) = 0
   \<and> last (log (snd (main full_disk_env (default_args\<lparr>permute_rows_flag := True\<rparr>)))) =
       (ERROR, Error_permuting_rows OSError)
   \<and> out_file (snd (main full_disk_env (default_args\<lparr>permute_rows_flag := True\<rparr>))) =
       Some [[''a'', ''b'', ''c''], [''x'']]"
proof -
  have o: "fst (permutation_outcome full_disk_env (default_args\<lparr>permute_rows_flag := True\<rparr>)) = Some OSError"
    by (simp add: full_disk_outcome)
  have f: "permute_rows_flag (default_args\<lparr>permute_rows_flag := True\<rparr>)" by simp
  show ?thesis
    using permutation_exception_logged_exit_zero[OF full_disk_open o] o f
    by (simp add: full_disk_outcome)
qed

end
